theory Spec2Isabelle
  imports Complex_Main "HOL-Library.Sublist"
begin

section \<open>Dates and times\<close>

text \<open>
  The program handles Python \<^verbatim>\<open>datetime\<close> values: the diagnosis dates of the case table,
  the dates parsed from the entry fields and \<^verbatim>\<open>datetime.now()\<close>. A value carries its calendar
  fields; hour, minute, second and microsecond are merged into \<open>usec\<close>, the microseconds
  since midnight, because the program never reads them one by one.
\<close>

record datetime =
  year :: int
  month :: int
  day :: int
  usec :: int

definition is_leap :: "int \<Rightarrow> bool" where
  "is_leap y = (y mod 4 = 0 \<and> (0 < y mod 100 \<or> y mod 400 = 0))"

definition days_before_year :: "int \<Rightarrow> int" where
  "days_before_year y = (let y1 = y - 1 in y1 * 365 + y1 div 4 - y1 div 100 + y1 div 400)"

definition days_in_month :: "int \<Rightarrow> int \<Rightarrow> int" where
  "days_in_month y m =
     (if m = 2 then (if is_leap y then 29 else 28)
      else if m = 4 \<or> m = 6 \<or> m = 9 \<or> m = 11 then 30 else 31)"

definition days_before_month :: "int \<Rightarrow> int \<Rightarrow> int" where
  "days_before_month y m =
     (if m = 1 then 0 else if m = 2 then 31 else
      (if is_leap y then 1 else 0) +
      (if m = 3 then 59 else if m = 4 then 90 else if m = 5 then 120
       else if m = 6 then 151 else if m = 7 then 181 else if m = 8 then 212
       else if m = 9 then 243 else if m = 10 then 273 else if m = 11 then 304
       else 334))"

text \<open>The day number of a date, day 1 being 0001-01-01 (\<^verbatim>\<open>date.toordinal\<close>).\<close>

definition toordinal :: "datetime \<Rightarrow> int" where
  "toordinal d = days_before_year (year d) + days_before_month (year d) (month d) + day d"

definition usec_per_day :: int where
  "usec_per_day = 86400000000"

text \<open>
  Datetimes are compared, and shifted by a \<^verbatim>\<open>timedelta\<close>, on the time line: \<open>timestamp\<close> is
  the number of microseconds since the start of day 0.
\<close>

definition timestamp :: "datetime \<Rightarrow> int" where
  "timestamp d = toordinal d * usec_per_day + usec d"

definition timedelta_days :: "int \<Rightarrow> int" where
  "timedelta_days n = n * usec_per_day"

text \<open>The values the \<^verbatim>\<open>datetime\<close> constructor accepts; it raises on every other one.\<close>

definition valid_datetime :: "datetime \<Rightarrow> bool" where
  "valid_datetime d =
     (1 \<le> year d \<and> year d \<le> 9999 \<and> 1 \<le> month d \<and> month d \<le> 12 \<and>
      1 \<le> day d \<and> day d \<le> days_in_month (year d) (month d) \<and>
      0 \<le> usec d \<and> usec d < usec_per_day)"

section \<open>The tables\<close>

text \<open>A row of \<^verbatim>\<open>self.hiv_data\<close>; a table is the list of its rows, in row order.\<close>

record case_record =
  region :: string
  district :: string
  gender :: string
  age_group :: string
  diagnosis_date :: datetime
  diagnosis_status :: string
  latitude :: real
  longitude :: real
  on_treatment :: bool

section \<open>Filtering the case table (\<^verbatim>\<open>update_hiv_map\<close>)\<close>

text \<open>
  The four selections of the HIV map tab. Each is the string held by the Tk variable;
  \<^verbatim>\<open>"All"\<close> (or any time frame other than the two presets) switches the filter off.
\<close>

record filter_spec =
  time_frame_var :: string
  age_group_var :: string
  gender_var :: string
  diagnosis_var :: string

definition update_hiv_map_filter ::
  "datetime \<Rightarrow> filter_spec \<Rightarrow> case_record list \<Rightarrow> case_record list" where
  "update_hiv_map_filter now s hiv_data =
     (let filtered_data = hiv_data;
          filtered_data =
            (if time_frame_var s = ''Last Year'' then
               (let one_year_ago = timestamp now - timedelta_days 365
                in filter (\<lambda>r. timestamp (diagnosis_date r) \<ge> one_year_ago) filtered_data)
             else if time_frame_var s = ''Last 5 Years'' then
               (let five_years_ago = timestamp now - timedelta_days (5 * 365)
                in filter (\<lambda>r. timestamp (diagnosis_date r) \<ge> five_years_ago) filtered_data)
             else filtered_data);
          filtered_data =
            (if age_group_var s \<noteq> ''All''
             then filter (\<lambda>r. age_group r = age_group_var s) filtered_data
             else filtered_data);
          filtered_data =
            (if gender_var s \<noteq> ''All''
             then filter (\<lambda>r. gender r = gender_var s) filtered_data
             else filtered_data);
          filtered_data =
            (if diagnosis_var s \<noteq> ''All''
             then filter (\<lambda>r. diagnosis_status r = diagnosis_var s) filtered_data
             else filtered_data)
      in filtered_data)"

section \<open>Floating-point results\<close>

text \<open>
  The numbers the program computes with NumPy are IEEE double-precision floats. A finite
  float is the real number it stands for; \<open>float64\<close> rounds a real number to the nearest
  float, ties to the even mantissa, as every arithmetic operation of the hardware does.
  (Overflow and subnormal numbers are left out: quotients and products of counts and
  populations stay far inside the normal range.) The special values that a division by
  zero produces are kept apart.
\<close>

definition round_half_even :: "real \<Rightarrow> int" where
  "round_half_even x =
     (let n = \<lfloor>x\<rfloor>; d = x - of_int n
      in if d < 1 / 2 then n else if 1 / 2 < d then n + 1 else if even n then n else n + 1)"

definition float64 :: "real \<Rightarrow> real" where
  "float64 x =
     (if x = 0 then 0
      else (let e = \<lfloor>log 2 \<bar>x\<bar>\<rfloor>; ulp = 2 powr (of_int e - 52)
            in of_int (round_half_even (x / ulp)) * ulp))"

datatype pyfloat = Fin real | PInf | NInf | NaN

text \<open>
  Division of two integer columns (or of a Python integer by a NumPy integer): both sides
  are converted to floats and divided; NumPy gives an infinity or NaN where the divisor
  is 0.
\<close>

definition true_divide :: "int \<Rightarrow> int \<Rightarrow> pyfloat" where
  "true_divide a b =
     (if b = 0 then (if 0 < a then PInf else if a < 0 then NInf else NaN)
      else Fin (float64 (float64 (of_int a) / float64 (of_int b))))"

text \<open>Multiplication of a float column by a finite float constant.\<close>

fun fmul :: "pyfloat \<Rightarrow> real \<Rightarrow> pyfloat" where
  "fmul (Fin x) c = Fin (float64 (x * c))"
| "fmul PInf c = (if 0 < c then PInf else if c < 0 then NInf else NaN)"
| "fmul NInf c = (if 0 < c then NInf else if c < 0 then PInf else NaN)"
| "fmul NaN c = NaN"

text \<open>The comparison \<^verbatim>\<open>x >= y\<close>; every comparison with NaN is false.\<close>

fun fge :: "pyfloat \<Rightarrow> pyfloat \<Rightarrow> bool" where
  "fge NaN y = False"
| "fge x NaN = False"
| "fge PInf y = True"
| "fge (Fin x) (Fin y) = (y \<le> x)"
| "fge (Fin x) PInf = False"
| "fge (Fin x) NInf = True"
| "fge NInf NInf = True"
| "fge NInf y = False"

text \<open>The exceptions that end a handler.\<close>

datatype py_error = TypeError | ValueError | IndexError

section \<open>Counting values (\<^verbatim>\<open>value_counts\<close>, \<^verbatim>\<open>idxmax\<close>)\<close>

text \<open>
  \<^verbatim>\<open>Series.value_counts()\<close> tallies the column in a hash table that keeps the keys in the
  order of their first appearance, and then sorts the tally by count, largest first, with
  \<^verbatim>\<open>sort_values(ascending=False)\<close>.
\<close>

fun count_into :: "'a \<Rightarrow> ('a \<times> nat) list \<Rightarrow> ('a \<times> nat) list" where
  "count_into x [] = [(x, 1)]"
| "count_into x (kc # kcs) =
     (if fst kc = x then (fst kc, Suc (snd kc)) # kcs else kc # count_into x kcs)"

definition tally :: "'a list \<Rightarrow> ('a \<times> nat) list" where
  "tally xs = fold count_into xs []"

text \<open>
  The sort of pandas is NumPy's quicksort, which is not stable: in which order it leaves
  equal values is the library's business, and differs between machines. The model
  therefore takes the sort as a parameter \<open>order\<close>: from the column of values it gives
  the positions of the rows in their new order. All that is known of it is that it sorts:
  \<open>sorts_descending (order a) a\<close>. It sees the values only, never the labels of the rows.
\<close>

definition sorts_descending :: "nat list \<Rightarrow> nat list \<Rightarrow> bool" where
  "sorts_descending p a =
     (distinct p \<and> set p = set [0..<length a] \<and> sorted_wrt (\<ge>) (map ((!) a) p))"

definition value_counts :: "(nat list \<Rightarrow> nat list) \<Rightarrow> 'a list \<Rightarrow> ('a \<times> nat) list" where
  "value_counts order xs = (let t = tally xs in map ((!) t) (order (map snd t)))"

text \<open>
  \<^verbatim>\<open>Series.idxmax()\<close>: the label of the first row that holds the maximum; it raises on an
  empty series (None).
\<close>

fun idxmax_from :: "'a \<times> nat \<Rightarrow> ('a \<times> nat) list \<Rightarrow> 'a \<times> nat" where
  "idxmax_from best [] = best"
| "idxmax_from best (kc # kcs) = idxmax_from (if snd best < snd kc then kc else best) kcs"

definition idxmax :: "('a \<times> nat) list \<Rightarrow> ('a \<times> nat) option" where
  "idxmax s = (case s of [] \<Rightarrow> None | kc # kcs \<Rightarrow> Some (idxmax_from kc kcs))"

text \<open>
  The statistics panel of \<^verbatim>\<open>update_hiv_map\<close>: the region with the most cases among the
  filtered rows and its count, or None where the panel shows \<^verbatim>\<open>N/A\<close>.
\<close>

definition highest_region ::
  "(nat list \<Rightarrow> nat list) \<Rightarrow> case_record list \<Rightarrow> (string \<times> nat) option" where
  "highest_region order filtered_data =
     (if filtered_data \<noteq> [] then
        (let region_counts = value_counts order (map region filtered_data)
         in idxmax region_counts)
      else None)"

text \<open>The fixed list of administrative regions, \<^verbatim>\<open>self.regions\<close>.\<close>

definition regions :: "string list" where
  "regions =
     [''Erongo'', ''Hardap'', ''Karas'', ''Kavango East'', ''Kavango West'',
      ''Khomas'', ''Kunene'', ''Ohangwena'', ''Omaheke'', ''Omusati'',
      ''Oshana'', ''Oshikoto'', ''Otjozondjupa'', ''Zambezi'']"

section \<open>Rates per capita\<close>

text \<open>
  A row of \<^verbatim>\<open>self.population_data\<close>, and the table itself as \<^verbatim>\<open>load_dummy_data\<close> fills it:
  the density column is computed once, when the data is loaded.
\<close>

record region_profile =
  p_region :: string
  population :: int
  area_sqkm :: int
  density :: real

definition population_data :: "region_profile list" where
  "population_data =
     map (\<lambda>(r, p, a). \<lparr>p_region = r, population = p, area_sqkm = a,
                          density = float64 (float64 (of_int p) / float64 (of_int a))\<rparr>)
       (zip regions
         (zip [150000, 87000, 85000, 148000, 89000, 415000, 96000, 245000, 74000, 243000,
               176000, 181000, 154000, 98000]
              [63579, 109651, 161235, 25576, 23166, 36964, 115293, 10706, 84612, 26573,
               8653, 38653, 105185, 14785]))"

text \<open>
  A row of \<^verbatim>\<open>pd.merge(counts, self.population_data, on='region')\<close>. The merge is an inner
  join: for each row of the counts, in order, one row for each profile row with the same
  region, and none where there is no such profile.
\<close>

record merged_row =
  m_region :: string
  cases :: nat
  m_population :: int
  m_area_sqkm :: int
  m_density :: real

definition merge_on_region ::
  "(string \<times> nat) list \<Rightarrow> region_profile list \<Rightarrow> merged_row list" where
  "merge_on_region counts profiles =
     concat (map (\<lambda>kc.
        map (\<lambda>p. \<lparr>m_region = fst kc, cases = snd kc, m_population = population p,
                    m_area_sqkm = area_sqkm p, m_density = density p\<rparr>)
            (filter (\<lambda>p. p_region p = fst kc) profiles)) counts)"

text \<open>
  The time-period selection of the regional tab, and the filter that
  \<^verbatim>\<open>update_regional_analysis\<close> applies before any of its comparisons.
\<close>

definition regional_filter ::
  "datetime \<Rightarrow> string \<Rightarrow> string \<Rightarrow> case_record list \<Rightarrow> case_record list" where
  "regional_filter now regional_analysis_var regional_time_var hiv_data =
     (let filtered_data = hiv_data;
          filtered_data =
            (if regional_analysis_var \<noteq> ''All''
             then filter (\<lambda>r. region r = regional_analysis_var) filtered_data
             else filtered_data);
          filtered_data =
            (if regional_time_var = ''Last Year'' then
               (let one_year_ago = timestamp now - timedelta_days 365
                in filter (\<lambda>r. timestamp (diagnosis_date r) \<ge> one_year_ago) filtered_data)
             else if regional_time_var = ''Last 3 Years'' then
               (let three_years_ago = timestamp now - timedelta_days (3 * 365)
                in filter (\<lambda>r. timestamp (diagnosis_date r) \<ge> three_years_ago) filtered_data)
             else if regional_time_var = ''Last 5 Years'' then
               (let five_years_ago = timestamp now - timedelta_days (5 * 365)
                in filter (\<lambda>r. timestamp (diagnosis_date r) \<ge> five_years_ago) filtered_data)
             else filtered_data)
      in filtered_data)"

text \<open>
  The comparison \<^verbatim>\<open>"Cases per 100,000 Population"\<close> of \<^verbatim>\<open>update_regional_analysis\<close>: the
  bars of the chart, as (region, rate) in the order they are drawn. The rows are put in
  the order \<open>order_rates\<close> gives for the column of rates (the library's sort again).
\<close>

definition cases_per_100k ::
  "(nat list \<Rightarrow> nat list) \<Rightarrow> (pyfloat list \<Rightarrow> nat list) \<Rightarrow>
   case_record list \<Rightarrow> region_profile list \<Rightarrow> (string \<times> pyfloat) list" where
  "cases_per_100k order order_rates filtered_data profiles =
     (let region_counts = value_counts order (map region filtered_data);
          merged_data = merge_on_region region_counts profiles;
          merged_data =
            map (\<lambda>m. (m_region m,
                  fmul (true_divide (int (cases m)) (m_population m)) 100000)) merged_data
      in map ((!) merged_data) (order_rates (map snd merged_data)))"

text \<open>
  The prevalence table of \<^verbatim>\<open>show_correlation_analysis\<close> and \<^verbatim>\<open>update_high_risk_areas\<close>:
  the merged rows, each with its prevalence (cases per head).
\<close>

definition prevalence_table ::
  "(nat list \<Rightarrow> nat list) \<Rightarrow> case_record list \<Rightarrow> region_profile list
   \<Rightarrow> (merged_row \<times> pyfloat) list" where
  "prevalence_table order hiv_data profiles =
     (let hiv_counts = value_counts order (map region hiv_data);
          merged_data = merge_on_region hiv_counts profiles
      in map (\<lambda>m. (m, true_divide (int (cases m)) (m_population m))) merged_data)"

text \<open>
  The display \<^verbatim>\<open>"HIV Prevalence Rate"\<close> of \<^verbatim>\<open>update_population_map\<close> computes the same
  prevalence another way: it walks through the fixed list of regions, reads the population
  of the region from its first profile row (an \<^verbatim>\<open>IndexError\<close> where there is none), looks
  the count up with \<^verbatim>\<open>.get(region, 0)\<close>, and divides where the population is positive.
\<close>

fun prevalence_by_region ::
  "(string \<times> nat) list \<Rightarrow> region_profile list \<Rightarrow> string list
   \<Rightarrow> py_error + (string \<times> pyfloat) list" where
  "prevalence_by_region hiv_by_region profiles [] = Inr []"
| "prevalence_by_region hiv_by_region profiles (r # rs) =
     (case filter (\<lambda>p. p_region p = r) profiles of
        [] \<Rightarrow> Inl IndexError
      | p # _ \<Rightarrow>
          (let cases = (case map_of hiv_by_region r of Some c \<Rightarrow> c | None \<Rightarrow> 0);
               prevalence = (if population p > 0 then true_divide (int cases) (population p)
                             else Fin 0)
           in case prevalence_by_region hiv_by_region profiles rs of
                Inl e \<Rightarrow> Inl e
              | Inr rows \<Rightarrow> Inr ((r, prevalence) # rows)))"

definition update_population_map ::
  "(nat list \<Rightarrow> nat list) \<Rightarrow> case_record list \<Rightarrow> region_profile list
   \<Rightarrow> py_error + (string \<times> pyfloat) list" where
  "update_population_map order hiv_data profiles =
     (let hiv_by_region = value_counts order (map region hiv_data)
      in prevalence_by_region hiv_by_region profiles regions)"

text \<open>
  \<^verbatim>\<open>update_high_risk_areas\<close>: the rows whose prevalence reaches the threshold read from the
  slider variable. The threshold is used as it is read; nothing checks it. After the rows
  are chosen the handler scales the bar chart to \<^verbatim>\<open>max(...)\<close> of the prevalence column:
  \<^verbatim>\<open>max\<close> raises a \<^verbatim>\<open>ValueError\<close> on an empty column, and the axis refuses an infinite
  limit with a \<^verbatim>\<open>ValueError\<close> too.
\<close>

definition update_high_risk_areas ::
  "(nat list \<Rightarrow> nat list) \<Rightarrow> case_record list \<Rightarrow> region_profile list \<Rightarrow> real
   \<Rightarrow> py_error + (merged_row \<times> pyfloat) list" where
  "update_high_risk_areas order hiv_data profiles threshold =
     (let merged_data = prevalence_table order hiv_data profiles;
          high_risk = filter (\<lambda>mp. fge (snd mp) (Fin threshold)) merged_data
      in if merged_data = [] \<or> list_ex (\<lambda>mp. snd mp = PInf) merged_data
         then Inl ValueError
         else Inr high_risk)"

section \<open>Resampling by calendar period\<close>

text \<open>
  The frequencies \<^verbatim>\<open>'M'\<close>, \<^verbatim>\<open>'Q'\<close> and \<^verbatim>\<open>'Y'\<close> that the program passes to
  \<^verbatim>\<open>resample\<close>, chosen from the granularity selection as the \<^verbatim>\<open>if\<close> chain does.
\<close>

datatype freq = Monthly | Quarterly | Yearly

definition freq_of_granularity :: "string \<Rightarrow> freq" where
  "freq_of_granularity time_granularity =
     (if time_granularity = ''Yearly'' then Yearly
      else if time_granularity = ''Quarterly'' then Quarterly
      else Monthly)"

text \<open>
  A calendar bucket is named by its index: months count from month 0 of year 0, quarters
  and years likewise. (pandas labels a bucket by its last day; the index names the same
  bucket.)
\<close>

fun period_index :: "freq \<Rightarrow> datetime \<Rightarrow> int" where
  "period_index Monthly d = year d * 12 + (month d - 1)"
| "period_index Quarterly d = year d * 4 + (month d - 1) div 3"
| "period_index Yearly d = year d"

fun min_date :: "datetime \<Rightarrow> datetime list \<Rightarrow> datetime" where
  "min_date d [] = d"
| "min_date d (x # xs) = min_date (if timestamp x < timestamp d then x else d) xs"

fun max_date :: "datetime \<Rightarrow> datetime list \<Rightarrow> datetime" where
  "max_date d [] = d"
| "max_date d (x # xs) = max_date (if timestamp d < timestamp x then x else d) xs"

text \<open>
  \<^verbatim>\<open>data.resample(freq, on='diagnosis_date').size()\<close>: pandas takes the smallest and the
  largest date of the column, lays out every bucket from the one of the smallest date to
  the one of the largest, and counts the rows of each. An empty table gives an empty series.
\<close>

definition resample_size :: "freq \<Rightarrow> case_record list \<Rightarrow> (int \<times> nat) list" where
  "resample_size f data =
     (case map diagnosis_date data of
        [] \<Rightarrow> []
      | d # ds \<Rightarrow>
          (let first = min_date d ds; last = max_date d ds
           in map (\<lambda>p. (p, length (filter (\<lambda>r. period_index f (diagnosis_date r) = p) data)))
                  [period_index f first .. period_index f last]))"

text \<open>
  The dialogs that end \<^verbatim>\<open>update_temporal_trends\<close> and \<^verbatim>\<open>assess_policy_impact\<close> early. A date
  field that \<^verbatim>\<open>strptime\<close> rejects is passed to the model as None.
\<close>

datatype dialog = InvalidDateFormat | NoData

text \<open>
  \<^verbatim>\<open>update_temporal_trends\<close> with the trend type \<^verbatim>\<open>"New Cases Over Time"\<close>: the series that is
  plotted and handed to the statistics box.
\<close>

definition update_temporal_trends ::
  "string \<Rightarrow> datetime option \<Rightarrow> datetime option \<Rightarrow> string \<Rightarrow> case_record list
   \<Rightarrow> dialog + (int \<times> nat) list" where
  "update_temporal_trends temporal_region_var start_date_var end_date_var
                          time_granularity_var hiv_data =
     (let filtered_data =
            (if temporal_region_var \<noteq> ''All''
             then filter (\<lambda>r. region r = temporal_region_var) hiv_data
             else hiv_data)
      in case (start_date_var, end_date_var) of
           (Some start_date, Some end_date) \<Rightarrow>
             (let filtered_data =
                    filter (\<lambda>r. timestamp (diagnosis_date r) \<ge> timestamp start_date \<and>
                                 timestamp (diagnosis_date r) \<le> timestamp end_date) filtered_data
              in if filtered_data = [] then Inl NoData
                 else Inr (resample_size (freq_of_granularity time_granularity_var) filtered_data))
         | _ \<Rightarrow> Inl InvalidDateFormat)"

section \<open>Health facilities (\<^verbatim>\<open>update_facilities_map\<close>)\<close>

record facility =
  name :: string
  f_region :: string
  f_district :: string
  facility_type :: string
  f_latitude :: real
  f_longitude :: real
  services :: string
  contact :: string
  hours :: string

text \<open>The service tags, as listed in \<^verbatim>\<open>load_dummy_data\<close> and again for the check boxes.\<close>

definition service_tags :: "string list" where
  "service_tags =
     [''HIV Testing'', ''HIV Treatment'', ''Counseling'', ''PrEP'',
      ''PMTCT'', ''Youth Services'', ''Support Groups'']"

text \<open>\<^verbatim>\<open>sep.join(xs)\<close>; the services column holds \<^verbatim>\<open>', '.join(...)\<close> of the tags on offer.\<close>

fun join :: "string \<Rightarrow> string list \<Rightarrow> string" where
  "join sep [] = []"
| "join sep [x] = x"
| "join sep (x # y # ys) = x @ sep @ join sep (y # ys)"

text \<open>\<^verbatim>\<open>s in x\<close> on two strings: \<open>s\<close> occurs in \<open>x\<close> as a run of consecutive characters.\<close>

fun str_contains :: "string \<Rightarrow> string \<Rightarrow> bool" where
  "str_contains s [] = (s = [])"
| "str_contains s (c # cs) = (prefix s (c # cs) \<or> str_contains s cs)"

definition update_facilities_filter ::
  "string \<Rightarrow> string \<Rightarrow> (string \<times> bool) list \<Rightarrow> facility list \<Rightarrow> facility list" where
  "update_facilities_filter facilities_region_var facility_type_var services_vars
                            health_facilities =
     (let filtered_facilities = health_facilities;
          filtered_facilities =
            (if facilities_region_var \<noteq> ''All''
             then filter (\<lambda>f. f_region f = facilities_region_var) filtered_facilities
             else filtered_facilities);
          filtered_facilities =
            (if facility_type_var \<noteq> ''All''
             then filter (\<lambda>f. facility_type f = facility_type_var) filtered_facilities
             else filtered_facilities);
          selected_services = map fst (filter snd services_vars);
          filtered_facilities =
            (if selected_services \<noteq> []
             then filter (\<lambda>f. list_ex (\<lambda>service. str_contains service (services f))
                                       selected_services) filtered_facilities
             else filtered_facilities)
      in filtered_facilities)"

section \<open>Sample rows\<close>

text \<open>
  \<^verbatim>\<open>datetime(y, m, d)\<close>, and rows in the shape \<^verbatim>\<open>load_dummy_data\<close> generates them, for
  the worked examples below.
\<close>

definition datetime_ymd :: "int \<Rightarrow> int \<Rightarrow> int \<Rightarrow> datetime" where
  "datetime_ymd y m d = \<lparr>year = y, month = m, day = d, usec = 0\<rparr>"

definition example_case :: "string \<Rightarrow> datetime \<Rightarrow> case_record" where
  "example_case r d =
     \<lparr>region = r, district = ''District_1'', gender = ''Female'', age_group = ''25-34'',
      diagnosis_date = d, diagnosis_status = ''New'', latitude = -22, longitude = 17,
      on_treatment = True\<rparr>"

definition example_profile :: "string \<Rightarrow> int \<Rightarrow> int \<Rightarrow> region_profile" where
  "example_profile r p a =
     \<lparr>p_region = r, population = p, area_sqkm = a,
      density = float64 (float64 (of_int p) / float64 (of_int a))\<rparr>"

definition example_facility :: "string \<Rightarrow> string \<Rightarrow> string \<Rightarrow> facility" where
  "example_facility r t s =
     \<lparr>name = ''Facility_1'', f_region = r, f_district = ''District_1'', facility_type = t,
      f_latitude = -22, f_longitude = 17, services = s, contact = ''+264 61 100000'',
      hours = ''24 hours''\<rparr>"

text \<open>
  The order in which a sort leaves a column that is already sorted and has no equal
  values: every row stays where it is. The worked examples use it on such columns only.
\<close>

definition in_order :: "'v list \<Rightarrow> nat list" where
  "in_order a = [0..<length a]"

text \<open>The test a case row has to pass under the selections of the HIV map tab.\<close>

definition case_passes :: "datetime \<Rightarrow> filter_spec \<Rightarrow> case_record \<Rightarrow> bool" where
  "case_passes now s r =
     ((if time_frame_var s = ''Last Year''
       then timestamp (diagnosis_date r) \<ge> timestamp now - timedelta_days 365
       else if time_frame_var s = ''Last 5 Years''
       then timestamp (diagnosis_date r) \<ge> timestamp now - timedelta_days (5 * 365)
       else True) \<and>
      (age_group_var s = ''All'' \<or> age_group r = age_group_var s) \<and>
      (gender_var s = ''All'' \<or> gender r = gender_var s) \<and>
      (diagnosis_var s = ''All'' \<or> diagnosis_status r = diagnosis_var s))"


section \<open>Properties of the case filter\<close>

lemma update_hiv_map_filter_eq:
  "update_hiv_map_filter now s rs = filter (case_passes now s) rs"
  unfolding update_hiv_map_filter_def case_passes_def Let_def
  by (auto intro: filter_cong)

text \<open>
  Claim C9. With the evaluation time \<open>now\<close> held fixed, so that the relative time frames
  resolve to the same bounds, filtering the case table twice with the same selections gives
  the same table as filtering it once.
\<close>

theorem update_hiv_map_filter_idempotent:
  "update_hiv_map_filter now s (update_hiv_map_filter now s records) =
   update_hiv_map_filter now s records"
  by (simp add: update_hiv_map_filter_eq)


section \<open>Properties of rounding\<close>

lemma round_half_even_of_int: "round_half_even (of_int m) = m"
  by (simp add: round_half_even_def)

lemma floor_log2_eq:
  assumes "2 powr of_int k \<le> x" "x < 2 powr (of_int k + 1)"
  shows "\<lfloor>log 2 x\<rfloor> = k"
proof -
  have x: "0 < x" using assms(1) by (smt (verit) powr_gt_zero)
  have "of_int k \<le> log 2 x" using assms(1) x by (simp add: le_log_iff)
  moreover have "log 2 x < of_int k + 1" using assms(2) x by (simp add: log_less_iff)
  ultimately show ?thesis by (simp add: floor_eq_iff)
qed

lemma float64_exact:
  assumes "x = of_int m * 2 powr of_int k" "2 ^ 52 \<le> \<bar>m\<bar>" "\<bar>m\<bar> < 2 ^ 53"
  shows "float64 x = x"
proof -
  have m0: "m \<noteq> 0" using assms(2) by auto
  have ax: "\<bar>x\<bar> = of_int \<bar>m\<bar> * 2 powr of_int k" by (simp add: assms(1) abs_mult)
  have lo: "2 powr of_int (52 + k) \<le> \<bar>x\<bar>"
  proof -
    have "(2::real) ^ 52 \<le> of_int \<bar>m\<bar>" using assms(2) by (metis of_int_le_iff of_int_numeral of_int_power)
    then have "(2::real) ^ 52 * 2 powr of_int k \<le> of_int \<bar>m\<bar> * 2 powr of_int k"
      by (intro mult_right_mono) simp_all
    moreover have "(2::real) powr of_int (52 + k) = 2 ^ 52 * 2 powr of_int k"
      by (simp add: powr_add powr_realpow [symmetric])
    ultimately show ?thesis unfolding ax by simp
  qed
  have hi: "\<bar>x\<bar> < 2 powr (of_int (52 + k) + 1)"
  proof -
    have "of_int \<bar>m\<bar> < (2::real) ^ 53" using assms(3) by (metis of_int_less_iff of_int_numeral of_int_power)
    then have "of_int \<bar>m\<bar> * 2 powr of_int k < (2::real) ^ 53 * 2 powr of_int k"
      by (intro mult_strict_right_mono) simp_all
    moreover have "(2::real) powr (of_int (52 + k) + 1) = 2 ^ 53 * 2 powr of_int k"
      by (simp add: powr_add powr_realpow [symmetric])
    ultimately show ?thesis unfolding ax by simp
  qed
  have e: "\<lfloor>log 2 \<bar>x\<bar>\<rfloor> = 52 + k" by (rule floor_log2_eq [OF lo hi])
  have x0: "x \<noteq> 0" using m0 by (simp add: assms(1))
  have "x / 2 powr of_int k = of_int m" by (simp add: assms(1))
  then show ?thesis
    unfolding float64_def Let_def e using x0 by (simp add: round_half_even_of_int assms(1))
qed

lemma float64_of_int:
  assumes "\<bar>n\<bar> < 2 ^ 53"
  shows "float64 (of_int n) = of_int n"
proof (cases "n = 0")
  case True
  then show ?thesis by (simp add: float64_def)
next
  case False
  let ?x = "of_int n :: real"
  define e where "e = \<lfloor>log 2 \<bar>?x\<bar>\<rfloor>"
  define d where "d = nat (52 - e)"
  have "1 \<le> \<bar>n\<bar>" using False by simp
  then have "(of_int 1 :: real) \<le> of_int \<bar>n\<bar>" by (simp only: of_int_le_iff)
  then have a1: "1 \<le> \<bar>?x\<bar>" by simp
  have a2: "\<bar>?x\<bar> < 2 ^ 53" using assms by (metis of_int_abs of_int_less_iff of_int_numeral of_int_power)
  have "0 \<le> log 2 \<bar>?x\<bar>" using a1 by simp
  then have e0: "0 \<le> e" unfolding e_def by simp
  have "log 2 \<bar>?x\<bar> < 53" using a1 a2 by (simp add: log_less_iff powr_realpow [symmetric])
  then have e52: "e \<le> 52" unfolding e_def by (simp add: floor_less_iff)
  have "of_int e - (52::real) = - real d" unfolding d_def using e52 by simp
  then have ulp: "(2::real) powr (of_int e - 52) = 1 / 2 ^ d"
    by (simp add: powr_minus powr_realpow divide_inverse)
  have "?x / (1 / 2 ^ d) = of_int (n * 2 ^ d)" by simp
  then have r: "round_half_even (?x / (1 / 2 ^ d)) = n * 2 ^ d"
    by (simp only: round_half_even_of_int)
  have x0: "?x \<noteq> 0" using False by simp
  show ?thesis
    unfolding float64_def Let_def e_def [symmetric] ulp r using x0 by simp
qed

lemma float64_numeral:
  "numeral w < (2::int) ^ 53 \<Longrightarrow> float64 (numeral w) = numeral w"
  using float64_of_int [of "numeral w"] by simp

lemma float64_0: "float64 0 = 0"
  by (simp add: float64_def)

lemma float64_1: "float64 1 = 1"
  using float64_of_int [of 1] by simp

lemma float64_pow2: "float64 (2 powr of_int k) = 2 powr of_int k"
proof -
  have "(2::real) powr of_int k = of_int (2 ^ 52) * 2 powr of_int (k - 52)"
    by (simp add: powr_diff powr_realpow [symmetric])
  then show ?thesis by (rule float64_exact) simp_all
qed

lemma float64_64th: "float64 (1 / 64) = 1 / 64"
proof -
  have "(2::real) powr of_int (- 6) = 1 / 64" by (simp add: powr_minus_divide)
  then show ?thesis using float64_pow2 [of "- 6"] by (simp only:)
qed

lemma float64_128th: "float64 (1 / 128) = 1 / 128"
proof -
  have "(2::real) powr of_int (- 7) = 1 / 128" by (simp add: powr_minus_divide)
  then show ?thesis using float64_pow2 [of "- 7"] by (simp only:)
qed


section \<open>Properties of counting\<close>

lemma tally_snoc: "tally (xs @ [x]) = count_into x (tally xs)"
  by (simp add: tally_def)

lemma set_count_into:
  "distinct (map fst kcs) \<Longrightarrow>
   set (count_into x kcs) =
     (if x \<in> fst ` set kcs
      then {(k, c). (k \<noteq> x \<and> (k, c) \<in> set kcs) \<or> (k = x \<and> (\<exists>c'. (x, c') \<in> set kcs \<and> c = Suc c'))}
      else insert (x, 1) (set kcs))"
  by (induction kcs) (auto simp: image_iff)

lemma keys_count_into:
  "map fst (count_into x kcs) =
     (if x \<in> fst ` set kcs then map fst kcs else map fst kcs @ [x])"
  by (induction kcs) auto

lemma keys_tally_snoc:
  "map fst (tally (xs @ [x])) =
     (if x \<in> set (map fst (tally xs)) then map fst (tally xs) else map fst (tally xs) @ [x])"
  by (simp add: tally_snoc keys_count_into)

lemma set_keys_tally: "set (map fst (tally xs)) = set xs"
proof (induction xs rule: rev_induct)
  case Nil
  show ?case by (simp add: tally_def)
next
  case (snoc x xs)
  show ?case unfolding keys_tally_snoc using snoc by auto
qed

lemma distinct_keys_tally: "distinct (map fst (tally xs))"
proof (induction xs rule: rev_induct)
  case Nil
  show ?case by (simp add: tally_def)
next
  case (snoc x xs)
  show ?case unfolding keys_tally_snoc using snoc by auto
qed

lemma set_tally: "set (tally xs) = {(k, c). k \<in> set xs \<and> c = count_list xs k}"
proof (induction xs rule: rev_induct)
  case Nil
  show ?case by (simp add: tally_def)
next
  case (snoc x xs)
  have d: "distinct (map fst (tally xs))" by (rule distinct_keys_tally)
  have k: "fst ` set (tally xs) = set xs" using set_keys_tally [of xs] by simp
  have s: "set (tally (xs @ [x])) =
     (if x \<in> set xs
      then {(k, c). (k \<noteq> x \<and> (k, c) \<in> set (tally xs)) \<or>
                    (k = x \<and> (\<exists>c'. (x, c') \<in> set (tally xs) \<and> c = Suc c'))}
      else insert (x, 1) (set (tally xs)))"
    unfolding tally_snoc set_count_into [OF d] k ..
  show ?case
  proof (cases "x \<in> set xs")
    case True
    then show ?thesis unfolding s snoc by auto
  next
    case False
    then show ?thesis unfolding s snoc by (auto simp: count_list_0_iff)
  qed
qed

lemma idxmax_from_max: "\<forall>p \<in> set (b # l). snd p \<le> snd (idxmax_from b l)"
proof (induction l arbitrary: b)
  case Nil
  show ?case by simp
next
  case (Cons kc l)
  let ?b = "if snd b < snd kc then kc else b"
  have ih: "\<forall>p \<in> set (?b # l). snd p \<le> snd (idxmax_from ?b l)" by (rule Cons)
  have r: "idxmax_from b (kc # l) = idxmax_from ?b l" by simp
  have "snd b \<le> snd ?b" "snd kc \<le> snd ?b" by auto
  moreover have "snd ?b \<le> snd (idxmax_from ?b l)" using ih by simp
  ultimately have "snd b \<le> snd (idxmax_from ?b l)" "snd kc \<le> snd (idxmax_from ?b l)"
    by linarith+
  moreover have "\<forall>p \<in> set l. snd p \<le> snd (idxmax_from ?b l)" using ih by simp
  ultimately show ?case unfolding r by simp
qed

lemma idxmax_from_first:
  "\<exists>rest. filter (\<lambda>p. snd p = snd (idxmax_from b l)) (b # l) = idxmax_from b l # rest"
proof (induction l arbitrary: b)
  case Nil
  show ?case by simp
next
  case (Cons kc l)
  let ?b = "if snd b < snd kc then kc else b"
  let ?r = "idxmax_from ?b l"
  have r: "idxmax_from b (kc # l) = ?r" by simp
  from Cons [of ?b] obtain rest where
    ih: "filter (\<lambda>p. snd p = snd ?r) (?b # l) = ?r # rest" by blast
  have mx: "snd ?b \<le> snd ?r" using idxmax_from_max [of ?b l] by simp
  show ?case
  proof (cases "snd b < snd kc")
    case True
    then have "snd b \<noteq> snd ?r" using mx by auto
    then have "filter (\<lambda>p. snd p = snd ?r) (b # kc # l) = filter (\<lambda>p. snd p = snd ?r) (kc # l)"
      by simp
    also have "\<dots> = ?r # rest" using ih True by simp
    finally show ?thesis unfolding r by blast
  next
    case False
    then have b': "?b = b" by simp
    show ?thesis
    proof (cases "snd b = snd ?r")
      case True
      have "filter (\<lambda>p. snd p = snd ?r) (b # l) = ?r # rest" using ih b' by simp
      then have "b = ?r" using True by simp
      then have "filter (\<lambda>p. snd p = snd ?r) (b # kc # l) =
                 ?r # filter (\<lambda>p. snd p = snd ?r) (kc # l)" using True by simp
      then show ?thesis unfolding r by blast
    next
      case neq: False
      then have "snd kc \<noteq> snd ?r" using mx False b' by auto
      then have "filter (\<lambda>p. snd p = snd ?r) (b # kc # l) = filter (\<lambda>p. snd p = snd ?r) l"
        using neq by simp
      also have "\<dots> = filter (\<lambda>p. snd p = snd ?r) (b # l)" using neq by simp
      also have "\<dots> = ?r # rest" using ih b' by simp
      finally show ?thesis unfolding r by blast
    qed
  qed
qed


section \<open>The region with the most cases\<close>

lemma idxmax_from_head: "\<forall>y \<in> set l. snd y \<le> snd b \<Longrightarrow> idxmax_from b l = b"
  by (induction l) auto

lemma tally_nonempty: "xs \<noteq> [] \<Longrightarrow> tally xs \<noteq> []"
proof -
  assume "xs \<noteq> []"
  then have "hd xs \<in> set xs" by simp
  then have "(hd xs, count_list xs (hd xs)) \<in> set (tally xs)" unfolding set_tally by simp
  then show ?thesis by auto
qed

lemma set_value_counts:
  assumes "sorts_descending (order (map snd (tally xs))) (map snd (tally xs))"
  shows "set (value_counts order xs) = {(k, c). k \<in> set xs \<and> c = count_list xs k}"
proof -
  have "set (order (map snd (tally xs))) = {0..<length (tally xs)}"
    using assms unfolding sorts_descending_def by simp
  then have "set (value_counts order xs) = (!) (tally xs) ` {0..<length (tally xs)}"
    unfolding value_counts_def Let_def by simp
  also have "\<dots> = set (tally xs)" by (auto simp: set_conv_nth)
  finally show ?thesis by (simp only: set_tally)
qed

lemma value_counts_sorted:
  assumes c: "sorts_descending (order (map snd (tally xs))) (map snd (tally xs))"
      and ne: "xs \<noteq> []"
  shows "\<exists>rest. value_counts order xs = tally xs ! hd (order (map snd (tally xs))) # rest \<and>
           hd (order (map snd (tally xs))) < length (tally xs) \<and>
           (\<forall>y \<in> set rest. snd y \<le> snd (tally xs ! hd (order (map snd (tally xs)))))"
proof -
  let ?t = "tally xs"
  let ?a = "map snd ?t"
  let ?p = "order ?a"
  have tne: "?t \<noteq> []" by (rule tally_nonempty [OF ne])
  have sp: "set ?p = {0..<length ?t}" using c unfolding sorts_descending_def by simp
  have so: "sorted_wrt (\<ge>) (map ((!) ?a) ?p)" using c unfolding sorts_descending_def by simp
  have "0 \<in> set ?p" unfolding sp using tne by simp
  then obtain i p' where p: "?p = i # p'" by (cases ?p) auto
  have i: "i < length ?t" using sp unfolding p by auto
  have p': "\<forall>j \<in> set p'. j < length ?t" using sp unfolding p by auto
  have "\<forall>j \<in> set p'. ?a ! j \<le> ?a ! i" using so unfolding p by auto
  then have le: "\<forall>j \<in> set p'. snd (?t ! j) \<le> snd (?t ! i)" using i p' by simp
  have "value_counts order xs = ?t ! i # map ((!) ?t) p'"
    unfolding value_counts_def Let_def p by simp
  moreover have "\<forall>y \<in> set (map ((!) ?t) p'). snd y \<le> snd (?t ! i)" using le by simp
  ultimately show ?thesis unfolding p using i by simp
qed

lemma highest_region_sorted:
  assumes ne: "filtered_data \<noteq> []"
      and c: "sorts_descending (order (map snd (tally (map region filtered_data))))
                (map snd (tally (map region filtered_data)))"
  shows "\<exists>r n. highest_region order filtered_data = Some (r, n) \<and>
           (r, n) = tally (map region filtered_data) !
                      hd (order (map snd (tally (map region filtered_data)))) \<and>
           r \<in> set (map region filtered_data) \<and>
           n = count_list (map region filtered_data) r \<and>
           (\<forall>r'. count_list (map region filtered_data) r' \<le> n)"
proof -
  let ?xs = "map region filtered_data"
  let ?t = "tally ?xs"
  let ?i = "hd (order (map snd ?t))"
  have xs: "?xs \<noteq> []" using ne by simp
  from value_counts_sorted [of order ?xs, OF c xs] obtain rest where
    vc: "value_counts order ?xs = ?t ! ?i # rest" and i: "?i < length ?t" and
    le: "\<forall>y \<in> set rest. snd y \<le> snd (?t ! ?i)" by blast
  have hr: "highest_region order filtered_data = Some (?t ! ?i)"
    unfolding highest_region_def Let_def idxmax_def vc using ne
    by (simp add: idxmax_from_head [OF le])
  obtain r n where rn: "?t ! ?i = (r, n)" by (cases "?t ! ?i")
  have "(r, n) \<in> set ?t" using i rn by (metis nth_mem)
  then have mem: "r \<in> set ?xs" "n = count_list ?xs r" unfolding set_tally by auto
  have mx: "count_list ?xs r' \<le> n" for r'
  proof (cases "r' \<in> set ?xs")
    case True
    then have "(r', count_list ?xs r') \<in> set (value_counts order ?xs)"
      unfolding set_value_counts [of order ?xs, OF c] by simp
    then have "(r', count_list ?xs r') = ?t ! ?i \<or> (r', count_list ?xs r') \<in> set rest"
      unfolding vc by simp
    then show ?thesis using le rn by auto
  next
    case False
    then show ?thesis by (simp add: count_list_0_iff)
  qed
  show ?thesis using hr rn mem mx by auto
qed

lemma sorts_descending_pair:
  assumes "sorts_descending p [a, b]"
  shows "p = [0, 1] \<or> p = [1, 0]"
proof -
  have d: "distinct p" and s: "set p = {0, 1}"
    using assms unfolding sorts_descending_def by (auto simp: upt_rec)
  have "length p = card (set p)" using d by (simp add: distinct_card)
  then have "length p = 2" unfolding s by simp
  then obtain x y where p: "p = [x, y]"
    by (metis (no_types, opaque_lifting) One_nat_def Suc_1 length_0_conv length_Suc_conv)
  show ?thesis using d s unfolding p by (auto simp: doubleton_eq_iff)
qed

lemmas eval_counts =
  highest_region_def value_counts_def tally_def idxmax_def example_case_def

text \<open>
  Claim C8, as the program has it. The region reported for a non-empty table is the first
  row of the sorted tally: a region of the table with the largest count. Among regions
  with the same largest count it is the one the library's sort of the counts leaves
  first, which depends on the counts alone: the fixed list of regions is not consulted.
\<close>

theorem highest_region_max_count:
  assumes "filtered_data \<noteq> []"
      and "sorts_descending (order (map snd (tally (map region filtered_data))))
             (map snd (tally (map region filtered_data)))"
  shows "\<exists>r n. highest_region order filtered_data = Some (r, n) \<and>
           (r, n) = tally (map region filtered_data) !
                      hd (order (map snd (tally (map region filtered_data)))) \<and>
           r \<in> set (map region filtered_data) \<and>
           n = count_list (map region filtered_data) r \<and>
           (\<forall>r'. count_list (map region filtered_data) r' \<le> n)"
  using assms by (rule highest_region_sorted)

text \<open>
  Erongo comes before Hardap in the fixed list of regions. Take one case in each of the
  two regions, with the rows in either order: both regions have the count 1. However the
  library's sort orders the two equal counts, the program does not report Erongo for
  both tables.
\<close>

theorem highest_region_counterexample:
  "takeWhile (\<lambda>r. r \<noteq> ''Hardap'') regions = [''Erongo''] \<and>
   \<not> (\<exists>order. sorts_descending (order [1, 1]) [1, 1] \<and>
          highest_region order [example_case ''Hardap'' (datetime_ymd 2020 1 15),
                                example_case ''Erongo'' (datetime_ymd 2020 2 15)]
            = Some (''Erongo'', 1) \<and>
          highest_region order [example_case ''Erongo'' (datetime_ymd 2020 1 15),
                                example_case ''Hardap'' (datetime_ymd 2020 2 15)]
            = Some (''Erongo'', 1))"
proof (intro conjI notI)
  show "takeWhile (\<lambda>r. r \<noteq> ''Hardap'') regions = [''Erongo'']"
    by (simp add: regions_def)
next
  assume "\<exists>order. sorts_descending (order [1, 1]) [1, 1] \<and>
          highest_region order [example_case ''Hardap'' (datetime_ymd 2020 1 15),
                                example_case ''Erongo'' (datetime_ymd 2020 2 15)]
            = Some (''Erongo'', 1) \<and>
          highest_region order [example_case ''Erongo'' (datetime_ymd 2020 1 15),
                                example_case ''Hardap'' (datetime_ymd 2020 2 15)]
            = Some (''Erongo'', 1)"
  then obtain order where
    c: "sorts_descending (order [1, 1]) [1, 1]" and
    h1: "highest_region order [example_case ''Hardap'' (datetime_ymd 2020 1 15),
                               example_case ''Erongo'' (datetime_ymd 2020 2 15)]
            = Some (''Erongo'', 1)" and
    h2: "highest_region order [example_case ''Erongo'' (datetime_ymd 2020 1 15),
                               example_case ''Hardap'' (datetime_ymd 2020 2 15)]
            = Some (''Erongo'', 1)" by blast
  from sorts_descending_pair [OF c] show False
  proof
    assume "order [1, 1] = [0, 1]"
    then show False using h1 by (simp add: eval_counts)
  next
    assume "order [1, 1] = [1, 0]"
    then show False using h2 by (simp add: eval_counts)
  qed
qed

theorem highest_region_max_count_witness:
  "[example_case ''Hardap'' (datetime_ymd 2020 1 15),
    example_case ''Erongo'' (datetime_ymd 2020 2 15),
    example_case ''Hardap'' (datetime_ymd 2020 3 15)] \<noteq> [] \<and>
   sorts_descending (in_order [2, 1]) [2, 1] \<and>
   highest_region in_order
     [example_case ''Hardap'' (datetime_ymd 2020 1 15),
      example_case ''Erongo'' (datetime_ymd 2020 2 15),
      example_case ''Hardap'' (datetime_ymd 2020 3 15)] = Some (''Hardap'', 2)"
  using highest_region_max_count [of
     "[example_case ''Hardap'' (datetime_ymd 2020 1 15),
       example_case ''Erongo'' (datetime_ymd 2020 2 15),
       example_case ''Hardap'' (datetime_ymd 2020 3 15)]" in_order]
  by (simp add: eval_counts in_order_def sorts_descending_def upt_rec)


section \<open>Properties of the rate tables\<close>

lemma set_merge_on_region:
  "set (merge_on_region counts profiles) =
     {\<lparr>m_region = fst kc, cases = snd kc, m_population = population p,
        m_area_sqkm = area_sqkm p, m_density = density p\<rparr> | kc p.
      kc \<in> set counts \<and> p \<in> set profiles \<and> p_region p = fst kc}"
  unfolding merge_on_region_def by auto

lemma set_prevalence_table:
  assumes "sorts_descending (order (map snd (tally (map region hiv_data))))
             (map snd (tally (map region hiv_data)))"
  shows "set (prevalence_table order hiv_data profiles) =
     {(\<lparr>m_region = r, cases = count_list (map region hiv_data) r, m_population = population p,
         m_area_sqkm = area_sqkm p, m_density = density p\<rparr>,
       true_divide (int (count_list (map region hiv_data) r)) (population p)) | r p.
      r \<in> set (map region hiv_data) \<and> p \<in> set profiles \<and> p_region p = r}"
  unfolding prevalence_table_def Let_def set_map set_merge_on_region
    set_value_counts [of order "map region hiv_data", OF assms]
  by (auto simp: image_iff) (metis+)

lemma true_divide_finite: "b \<noteq> 0 \<Longrightarrow> true_divide a b \<noteq> PInf"
  by (simp add: true_divide_def)

lemma high_risk_rows:
  assumes c: "sorts_descending (order (map snd (tally (map region hiv_data))))
                (map snd (tally (map region hiv_data)))"
      and ex: "\<exists>p \<in> set profiles. p_region p \<in> set (map region hiv_data)"
      and nz: "\<forall>p \<in> set profiles. p_region p \<in> set (map region hiv_data) \<longrightarrow> population p \<noteq> 0"
  shows "\<exists>high_risk.
           update_high_risk_areas order hiv_data profiles threshold = Inr high_risk \<and>
           (\<forall>r. r \<in> set (map (\<lambda>mp. m_region (fst mp)) high_risk) \<longleftrightarrow>
                r \<in> set (map region hiv_data) \<and>
                (\<exists>p \<in> set profiles. p_region p = r \<and>
                   fge (true_divide (int (count_list (map region hiv_data) r)) (population p))
                       (Fin threshold)))"
proof -
  let ?m = "prevalence_table order hiv_data profiles"
  note st = set_prevalence_table [of order hiv_data profiles, OF c]
  from ex obtain p where p: "p \<in> set profiles" "p_region p \<in> set (map region hiv_data)"
    by blast
  have "(\<lparr>m_region = p_region p, cases = count_list (map region hiv_data) (p_region p),
           m_population = population p, m_area_sqkm = area_sqkm p, m_density = density p\<rparr>,
         true_divide (int (count_list (map region hiv_data) (p_region p))) (population p))
        \<in> set ?m"
    unfolding st using p by blast
  then have ne: "?m \<noteq> []" by auto
  have fin: "\<not> list_ex (\<lambda>mp. snd mp = PInf) ?m"
    unfolding list_ex_iff st using nz by (auto simp: image_iff) (metis true_divide_finite)
  have r: "update_high_risk_areas order hiv_data profiles threshold =
             Inr (filter (\<lambda>mp. fge (snd mp) (Fin threshold)) ?m)"
    unfolding update_high_risk_areas_def Let_def using ne fin by simp
  have "\<forall>r. r \<in> set (map (\<lambda>mp. m_region (fst mp))
                 (filter (\<lambda>mp. fge (snd mp) (Fin threshold)) ?m)) \<longleftrightarrow>
                r \<in> set (map region hiv_data) \<and>
                (\<exists>p \<in> set profiles. p_region p = r \<and>
                   fge (true_divide (int (count_list (map region hiv_data) r)) (population p))
                       (Fin threshold))"
    unfolding set_map set_filter st
    by (auto simp: image_iff) (metis merged_row.select_convs)
  then show ?thesis using r by blast
qed

lemma high_risk_value_error:
  assumes c: "sorts_descending (order (map snd (tally (map region hiv_data))))
                (map snd (tally (map region hiv_data)))"
  shows "update_high_risk_areas order hiv_data profiles threshold = Inl ValueError \<longleftrightarrow>
           \<not> (\<exists>p \<in> set profiles. p_region p \<in> set (map region hiv_data)) \<or>
           (\<exists>p \<in> set profiles. p_region p \<in> set (map region hiv_data) \<and> population p = 0)"
proof (cases "\<exists>p \<in> set profiles. p_region p \<in> set (map region hiv_data)")
  case False
  have "set (prevalence_table order hiv_data profiles) = {}"
    unfolding set_prevalence_table [of order hiv_data profiles, OF c] using False by auto
  then show ?thesis unfolding update_high_risk_areas_def Let_def using False by simp
next
  case ex: True
  show ?thesis
  proof (cases "\<exists>p \<in> set profiles. p_region p \<in> set (map region hiv_data) \<and> population p = 0")
    case False
    then have "\<forall>p \<in> set profiles. p_region p \<in> set (map region hiv_data) \<longrightarrow> population p \<noteq> 0"
      by blast
    from high_risk_rows [of order hiv_data profiles threshold, OF c ex this] show ?thesis using False ex by auto
  next
    case True
    then obtain p where p: "p \<in> set profiles" "p_region p \<in> set (map region hiv_data)"
      "population p = 0" by blast
    have pos: "0 < count_list (map region hiv_data) (p_region p)"
      using p(2) by (metis count_list_0_iff gr0I)
    have "(\<lparr>m_region = p_region p, cases = count_list (map region hiv_data) (p_region p),
           m_population = population p, m_area_sqkm = area_sqkm p, m_density = density p\<rparr>,
         true_divide (int (count_list (map region hiv_data) (p_region p))) (population p))
        \<in> set (prevalence_table order hiv_data profiles)"
      unfolding set_prevalence_table [of order hiv_data profiles, OF c] using p by blast
    moreover have "true_divide (int (count_list (map region hiv_data) (p_region p))) (population p)
        = PInf" using pos p(3) by (simp add: true_divide_def)
    ultimately have "list_ex (\<lambda>mp. snd mp = PInf) (prevalence_table order hiv_data profiles)"
      unfolding list_ex_iff by force
    then show ?thesis unfolding update_high_risk_areas_def Let_def using True by simp
  qed
qed


lemmas eval_rates =
  cases_per_100k_def prevalence_table_def regional_filter_def value_counts_def tally_def
  merge_on_region_def true_divide_def example_case_def example_profile_def in_order_def
  float64_numeral float64_0 float64_1

lemma rate_chart_example:
  "map fst (cases_per_100k in_order in_order
       (regional_filter (datetime_ymd 2024 6 1) ''All'' ''All Time''
          [example_case ''Erongo'' (datetime_ymd 2020 1 15)]) population_data)
     = [''Erongo'']"
proof -
  have "regional_filter (datetime_ymd 2024 6 1) ''All'' ''All Time''
          [example_case ''Erongo'' (datetime_ymd 2020 1 15)] =
        [example_case ''Erongo'' (datetime_ymd 2020 1 15)]"
    by (simp add: regional_filter_def)
  then show ?thesis
    unfolding cases_per_100k_def Let_def
    by (simp add: value_counts_def tally_def merge_on_region_def example_case_def
          in_order_def population_data_def regions_def)
qed

lemma prevalence_table_example:
  "map (\<lambda>mp. m_region (fst mp))
       (prevalence_table in_order [example_case ''Erongo'' (datetime_ymd 2020 1 15)]
          population_data)
     = [''Erongo'']"
  unfolding prevalence_table_def Let_def
  by (simp add: value_counts_def tally_def merge_on_region_def example_case_def
        in_order_def population_data_def regions_def)

lemma population_data_regions: "map p_region population_data = regions"
  by (simp add: population_data_def regions_def)

lemma population_map_example:
  "update_population_map in_order [example_case ''Erongo'' (datetime_ymd 2020 1 15)]
       population_data
     = Inr ((''Erongo'', Fin (float64 (1 / 150000))) # map (\<lambda>r. (r, Fin 0)) (tl regions))"
  by (simp add: eval_rates update_population_map_def population_data_def regions_def)

text \<open>
  Claim C1 at a table with one case, in Erongo, and the population table of the program.
  The rate chart and the prevalence table of the high-risk analysis are built with an
  inner join and have a row for Erongo only: the thirteen regions without a case are left
  out. The prevalence display of \<^verbatim>\<open>update_population_map\<close>, on the same tables, has all
  fourteen regions, those without a case with the rate 0.
\<close>

theorem rate_tables_omit_regions:
  "map fst (cases_per_100k in_order in_order
       (regional_filter (datetime_ymd 2024 6 1) ''All'' ''All Time''
          [example_case ''Erongo'' (datetime_ymd 2020 1 15)]) population_data)
     = [''Erongo''] \<and>
   map (\<lambda>mp. m_region (fst mp))
       (prevalence_table in_order [example_case ''Erongo'' (datetime_ymd 2020 1 15)]
          population_data)
     = [''Erongo''] \<and>
   map p_region population_data = regions \<and>
   update_population_map in_order [example_case ''Erongo'' (datetime_ymd 2020 1 15)]
       population_data
     = Inr ((''Erongo'', Fin (float64 (1 / 150000))) # map (\<lambda>r. (r, Fin 0)) (tl regions))"
  by (intro conjI) (rule rate_chart_example, rule prevalence_table_example,
      rule population_data_regions, rule population_map_example)

section \<open>High-risk regions\<close>

text \<open>
  Claim C7, as the program has it. The handler makes no check of the threshold. Where at
  least one region has both a case and a profile, and no such profile has the population
  0, it delivers the high-risk rows for every threshold, and a region is among them
  exactly when it has a case and a profile whose prevalence, the float quotient of the
  count and the population, is greater than or equal to the threshold.
\<close>

theorem high_risk_iff:
  assumes "sorts_descending (order (map snd (tally (map region hiv_data))))
             (map snd (tally (map region hiv_data)))"
      and "\<exists>p \<in> set profiles. p_region p \<in> set (map region hiv_data)"
      and "\<forall>p \<in> set profiles. p_region p \<in> set (map region hiv_data) \<longrightarrow> population p \<noteq> 0"
  shows "\<exists>high_risk.
           update_high_risk_areas order hiv_data profiles threshold = Inr high_risk \<and>
           (\<forall>r. r \<in> set (map (\<lambda>mp. m_region (fst mp)) high_risk) \<longleftrightarrow>
                r \<in> set (map region hiv_data) \<and>
                (\<exists>p \<in> set profiles. p_region p = r \<and>
                   fge (true_divide (int (count_list (map region hiv_data) r)) (population p))
                       (Fin threshold)))"
  using assms by (rule high_risk_rows)

text \<open>
  The threshold 2 lies outside the interval from 0 (excluded) to 1; the slider cannot
  produce it, but the handler compares whatever float the variable holds and delivers a
  result, here the empty set of rows. The one error the handler ends with has nothing to
  do with the threshold: at the default threshold 0.01, a case table none of whose
  regions has a profile ends in a \<^verbatim>\<open>ValueError\<close>.
\<close>

theorem high_risk_counterexample:
  "\<not> (0 < (2::real) \<and> (2::real) \<le> 1) \<and>
   update_high_risk_areas in_order [example_case ''Erongo'' (datetime_ymd 2020 1 15)]
     [example_profile ''Erongo'' 64 1] 2 = Inr [] \<and>
   update_high_risk_areas in_order [example_case ''Erongo'' (datetime_ymd 2020 1 15)]
     [example_profile ''Hardap'' 87000 109651] (float64 (1 / 100)) = Inl ValueError"
  by (simp add: update_high_risk_areas_def eval_rates float64_64th)

theorem high_risk_iff_witness:
  "sorts_descending (in_order [1, 1]) [1, 1] \<and>
   update_high_risk_areas in_order
     [example_case ''Erongo'' (datetime_ymd 2020 1 15),
      example_case ''Hardap'' (datetime_ymd 2020 2 15)]
     [example_profile ''Erongo'' 64 1, example_profile ''Hardap'' 128 1] (1 / 64)
     = Inr [(\<lparr>m_region = ''Erongo'', cases = 1, m_population = 64, m_area_sqkm = 1,
              m_density = 64\<rparr>, Fin (1 / 64))] \<and>
   sorts_descending (in_order [1]) [1] \<and>
   update_high_risk_areas in_order [example_case ''Erongo'' (datetime_ymd 2020 1 15)]
     [example_profile ''Erongo'' 100 1] (float64 (1 / 100))
     = Inr [(\<lparr>m_region = ''Erongo'', cases = 1, m_population = 100, m_area_sqkm = 1,
              m_density = 100\<rparr>, Fin (float64 (1 / 100)))]"
  using high_risk_iff [of in_order
          "[example_case ''Erongo'' (datetime_ymd 2020 1 15),
            example_case ''Hardap'' (datetime_ymd 2020 2 15)]"
          "[example_profile ''Erongo'' 64 1, example_profile ''Hardap'' 128 1]" "1 / 64"]
        high_risk_iff [of in_order "[example_case ''Erongo'' (datetime_ymd 2020 1 15)]"
          "[example_profile ''Erongo'' 100 1]" "float64 (1 / 100)"]
  by (simp add: update_high_risk_areas_def eval_rates sorts_descending_def upt_rec
        float64_64th float64_128th)


section \<open>Properties of dates\<close>

lemma div_step:
  assumes n: "0 < (n::int)"
  shows "y div n = (y - 1) div n + (if y mod n = 0 then 1 else 0)"
proof (cases "y mod n = 0")
  case True
  have "y = n * (y div n) + y mod n" by simp
  then have "y - 1 = n * (y div n - 1) + (n - 1)" using True by (simp add: algebra_simps)
  then have "(y - 1) div n = (n * (y div n - 1) + (n - 1)) div n" by (simp only:)
  also have "\<dots> = (y div n - 1) + (n - 1) div n" using n by (subst div_mult_self4) simp_all
  also have "(n - 1) div n = 0" using n by simp
  finally show ?thesis using True by simp
next
  case False
  have r: "0 \<le> y mod n" "y mod n < n" using n by simp_all
  have "y = n * (y div n) + y mod n" by simp
  then have "y - 1 = n * (y div n) + (y mod n - 1)" by (simp add: algebra_simps)
  then have "(y - 1) div n = (n * (y div n) + (y mod n - 1)) div n" by (simp only:)
  also have "\<dots> = y div n + (y mod n - 1) div n" using n by (subst div_mult_self4) simp_all
  also have "(y mod n - 1) div n = 0" using r False by simp
  finally show ?thesis using False by simp
qed

lemma dvd_chain: "(y::int) mod 400 = 0 \<Longrightarrow> y mod 100 = 0" "(y::int) mod 100 = 0 \<Longrightarrow> y mod 4 = 0"
proof -
  show "y mod 400 = 0 \<Longrightarrow> y mod 100 = 0"
    using mod_mod_cancel [of 100 400 y] by simp
  show "y mod 100 = 0 \<Longrightarrow> y mod 4 = 0"
    using mod_mod_cancel [of 4 100 y] by simp
qed

lemma days_before_year_step:
  "days_before_year (y + 1) = days_before_year y + (if is_leap y then 366 else 365)"
proof -
  define i4 :: int where "i4 = (if y mod 4 = 0 then 1 else 0)"
  define i100 :: int where "i100 = (if y mod 100 = 0 then 1 else 0)"
  define i400 :: int where "i400 = (if y mod 400 = 0 then 1 else 0)"
  have 1: "y div 4 = (y - 1) div 4 + i4" unfolding i4_def by (rule div_step) simp
  have 2: "y div 100 = (y - 1) div 100 + i100" unfolding i100_def by (rule div_step) simp
  have 3: "y div 400 = (y - 1) div 400 + i400" unfolding i400_def by (rule div_step) simp
  have e: "days_before_year (y + 1) = days_before_year y + 365 + i4 - i100 + i400"
    unfolding days_before_year_def Let_def using 1 2 3 by simp
  have c: "0 < y mod 100 \<longleftrightarrow> y mod 100 \<noteq> 0"
    using pos_mod_sign [of 100 y] by linarith
  have "365 + i4 - i100 + i400 = (if is_leap y then 366 else 365)"
  proof (cases "y mod 4 = 0")
    case False
    have h: "y mod 100 \<noteq> 0"
    proof
      assume "y mod 100 = 0"
      then have "y mod 4 = 0" by (rule dvd_chain(2))
      with False show False ..
    qed
    have "y mod 400 \<noteq> 0"
    proof
      assume "y mod 400 = 0"
      then have "y mod 100 = 0" by (rule dvd_chain(1))
      with h show False ..
    qed
    with False h show ?thesis by (simp add: is_leap_def i4_def i100_def i400_def)
  next
    case m4: True
    show ?thesis
    proof (cases "y mod 100 = 0")
      case False
      have "y mod 400 \<noteq> 0"
      proof
        assume "y mod 400 = 0"
        then have "y mod 100 = 0" by (rule dvd_chain(1))
        with False show False ..
      qed
      with False m4 c show ?thesis by (simp add: is_leap_def i4_def i100_def i400_def)
    next
      case True
      with m4 c show ?thesis by (simp add: is_leap_def i4_def i100_def i400_def)
    qed
  qed
  with e show ?thesis by simp
qed

lemma days_before_year_mono: "y \<le> y' \<Longrightarrow> days_before_year y \<le> days_before_year y'"
proof (induction y' rule: int_ge_induct)
  case base
  show ?case by simp
next
  case (step i)
  then show ?case using days_before_year_step [of i] by (simp split: if_splits)
qed

lemma month_cases:
  "1 \<le> (m::int) \<Longrightarrow> m \<le> 12 \<Longrightarrow>
   m = 1 \<or> m = 2 \<or> m = 3 \<or> m = 4 \<or> m = 5 \<or> m = 6 \<or> m = 7 \<or> m = 8 \<or> m = 9 \<or> m = 10 \<or>
   m = 11 \<or> m = 12"
  by arith

lemma day_of_year_bounds:
  assumes "1 \<le> m" "m \<le> 12" "1 \<le> d" "d \<le> days_in_month y m"
  shows "1 \<le> days_before_month y m + d"
    and "days_before_month y m + d \<le> (if is_leap y then 366 else 365)"
  using month_cases [OF assms(1,2)] assms(3,4)
  by (auto simp: days_before_month_def days_in_month_def)


lemma days_before_month_step:
  "1 \<le> m \<Longrightarrow> m \<le> 11 \<Longrightarrow>
   days_before_month y (m + 1) = days_before_month y m + days_in_month y m"
proof -
  assume "1 \<le> m" "m \<le> 11"
  then have "m = 1 \<or> m = 2 \<or> m = 3 \<or> m = 4 \<or> m = 5 \<or> m = 6 \<or> m = 7 \<or> m = 8 \<or> m = 9 \<or>
    m = 10 \<or> m = 11" by arith
  then show ?thesis
    by (elim disjE; simp add: days_before_month_def days_in_month_def)
qed

lemma days_in_month_pos: "0 < days_in_month y m"
  by (simp add: days_in_month_def)

lemma days_before_month_mono:
  "m \<le> m' \<Longrightarrow> 1 \<le> m \<Longrightarrow> m' \<le> 12 \<Longrightarrow> days_before_month y m \<le> days_before_month y m'"
proof (induction m' rule: int_ge_induct)
  case base
  show ?case by simp
next
  case (step i)
  then have "days_before_month y (i + 1) = days_before_month y i + days_in_month y i"
    by (intro days_before_month_step) simp_all
  with step days_in_month_pos [of y i] show ?case by simp
qed

lemma toordinal_less:
  assumes "valid_datetime d" "valid_datetime d'"
    and "year d < year d' \<or> (year d = year d' \<and> month d < month d')"
  shows "toordinal d < toordinal d'"
proof -
  have v: "1 \<le> month d" "month d \<le> 12" "1 \<le> day d" "day d \<le> days_in_month (year d) (month d)"
    using assms(1) by (simp_all add: valid_datetime_def)
  have v': "1 \<le> month d'" "month d' \<le> 12" "1 \<le> day d'"
    "day d' \<le> days_in_month (year d') (month d')"
    using assms(2) by (simp_all add: valid_datetime_def)
  from assms(3) show ?thesis
  proof
    assume y: "year d < year d'"
    have "toordinal d \<le> days_before_year (year d) + (if is_leap (year d) then 366 else 365)"
      unfolding toordinal_def using day_of_year_bounds(2) [OF v] by simp
    also have "\<dots> = days_before_year (year d + 1)" by (simp add: days_before_year_step)
    also have "\<dots> \<le> days_before_year (year d')" using y by (intro days_before_year_mono) simp
    also have "\<dots> < toordinal d'"
      unfolding toordinal_def using day_of_year_bounds(1) [OF v'] by simp
    finally show ?thesis .
  next
    assume ym: "year d = year d' \<and> month d < month d'"
    then have "month d \<le> 11" "month d + 1 \<le> month d'" using v'(2) by simp_all
    have "days_before_month (year d) (month d) + day d \<le>
          days_before_month (year d) (month d) + days_in_month (year d) (month d)"
      using v(4) by simp
    also have "\<dots> = days_before_month (year d) (month d + 1)"
      using days_before_month_step [OF v(1) \<open>month d \<le> 11\<close>] by simp
    also have "\<dots> \<le> days_before_month (year d) (month d')"
      using v(1) \<open>month d + 1 \<le> month d'\<close> v'(2) by (intro days_before_month_mono) simp_all
    finally show ?thesis unfolding toordinal_def using ym v'(3) by simp
  qed
qed

lemma timestamp_less:
  assumes "valid_datetime d" "valid_datetime d'" "toordinal d < toordinal d'"
  shows "timestamp d < timestamp d'"
proof -
  have "usec d < usec_per_day" "0 \<le> usec d'"
    using assms(1,2) by (simp_all add: valid_datetime_def)
  moreover have "toordinal d + 1 \<le> toordinal d'" using assms(3) by simp
  then have "(toordinal d + 1) * usec_per_day \<le> toordinal d' * usec_per_day"
    by (intro mult_right_mono) (simp_all add: usec_per_day_def)
  ultimately show ?thesis unfolding timestamp_def by (simp add: algebra_simps)
qed

lemma period_index_mono:
  assumes "valid_datetime d" "valid_datetime d'" "timestamp d \<le> timestamp d'"
  shows "period_index f d \<le> period_index f d'"
proof -
  have le: "year d < year d' \<or> (year d = year d' \<and> month d \<le> month d')"
  proof (rule ccontr)
    assume "\<not> ?thesis"
    then have "year d' < year d \<or> (year d' = year d \<and> month d' < month d)" by auto
    from timestamp_less [OF assms(2,1) toordinal_less [OF assms(2,1) this]] assms(3)
    show False by simp
  qed
  have m: "1 \<le> month d" "month d \<le> 12" "1 \<le> month d'" "month d' \<le> 12"
    using assms(1,2) by (simp_all add: valid_datetime_def)
  show ?thesis
  proof (cases f)
    case Monthly
    then show ?thesis using le m by auto
  next
    case Quarterly
    have q: "0 \<le> (month d - 1) div 3" "(month d - 1) div 3 \<le> 3"
      "0 \<le> (month d' - 1) div 3" "(month d' - 1) div 3 \<le> 3" using m by simp_all
    from le show ?thesis
    proof
      assume "year d < year d'"
      then have "year d * 4 + 4 \<le> year d' * 4" by simp
      with q Quarterly show ?thesis by simp
    next
      assume "year d = year d' \<and> month d \<le> month d'"
      then have "year d = year d'" "(month d - 1) div 3 \<le> (month d' - 1) div 3"
        by (simp_all add: zdiv_mono1)
      with Quarterly show ?thesis by simp
    qed
  next
    case Yearly
    then show ?thesis using le by auto
  qed
qed

section \<open>Properties of resampling\<close>

lemma min_date_mem: "min_date d ds \<in> set (d # ds)"
  by (induction ds arbitrary: d) auto

lemma max_date_mem: "max_date d ds \<in> set (d # ds)"
  by (induction ds arbitrary: d) auto

lemma min_date_le_start: "timestamp (min_date d ds) \<le> timestamp d"
proof (induction ds arbitrary: d)
  case Nil
  show ?case by simp
next
  case (Cons x ds)
  show ?case using Cons [of "if timestamp x < timestamp d then x else d"] by (simp split: if_splits)
qed

lemma min_date_le: "x \<in> set (d # ds) \<Longrightarrow> timestamp (min_date d ds) \<le> timestamp x"
proof (induction ds arbitrary: d)
  case Nil
  then show ?case by simp
next
  case (Cons y ds)
  let ?d = "if timestamp y < timestamp d then y else d"
  have s: "timestamp (min_date ?d ds) \<le> timestamp ?d" by (rule min_date_le_start)
  from Cons.prems consider "x = d" | "x = y" | "x \<in> set ds" by auto
  then show ?case
  proof cases
    case 1
    then show ?thesis using s by (simp split: if_splits)
  next
    case 2
    then show ?thesis using s by (simp split: if_splits)
  next
    case 3
    then have "x \<in> set (?d # ds)" by simp
    from Cons.IH [OF this] show ?thesis by simp
  qed
qed

lemma max_date_ge_start: "timestamp d \<le> timestamp (max_date d ds)"
proof (induction ds arbitrary: d)
  case Nil
  show ?case by simp
next
  case (Cons x ds)
  show ?case using Cons [of "if timestamp d < timestamp x then x else d"] by (simp split: if_splits)
qed

lemma max_date_ge: "x \<in> set (d # ds) \<Longrightarrow> timestamp x \<le> timestamp (max_date d ds)"
proof (induction ds arbitrary: d)
  case Nil
  then show ?case by simp
next
  case (Cons y ds)
  let ?d = "if timestamp d < timestamp y then y else d"
  have s: "timestamp ?d \<le> timestamp (max_date ?d ds)" by (rule max_date_ge_start)
  from Cons.prems consider "x = d" | "x = y" | "x \<in> set ds" by auto
  then show ?case
  proof cases
    case 1
    then show ?thesis using s by (simp split: if_splits)
  next
    case 2
    then show ?thesis using s by (simp split: if_splits)
  next
    case 3
    then have "x \<in> set (?d # ds)" by simp
    from Cons.IH [OF this] show ?thesis by simp
  qed
qed

lemma sum_list_delta_upto:
  "(\<Sum>p\<leftarrow>[a..b]. if c = p then 1 else 0) = (if a \<le> c \<and> c \<le> b then 1 else (0::nat))"
proof -
  have "(\<Sum>p\<leftarrow>[a..b]. if c = p then 1 else 0) = (\<Sum>p\<in>{a..b}. if c = p then 1 else (0::nat))"
    by (subst sum_list_distinct_conv_sum_set) simp_all
  also have "\<dots> = (if c \<in> {a..b} then 1 else 0)" by (subst sum.delta') simp_all
  finally show ?thesis by simp
qed

lemma sum_bucket_counts:
  "\<forall>r \<in> set data. a \<le> g r \<and> g r \<le> b \<Longrightarrow>
   (\<Sum>p\<leftarrow>[a..b]. length (filter (\<lambda>r. g r = p) data)) = length data"
proof (induction data)
  case Nil
  show ?case by simp
next
  case (Cons x xs)
  have "(\<Sum>p\<leftarrow>[a..b]. length (filter (\<lambda>r. g r = p) (x # xs))) =
        (\<Sum>p\<leftarrow>[a..b]. (if g x = p then 1 else 0) + length (filter (\<lambda>r. g r = p) xs))"
    by (intro arg_cong [where f = sum_list] map_cong) simp_all
  also have "\<dots> = (\<Sum>p\<leftarrow>[a..b]. if g x = p then 1 else 0) +
                   (\<Sum>p\<leftarrow>[a..b]. length (filter (\<lambda>r. g r = p) xs))"
    by (simp add: sum_list_addf)
  also have "\<dots> = 1 + length xs"
    using Cons by (simp add: sum_list_delta_upto)
  finally show ?case by simp
qed

lemma resample_size_Cons:
  "resample_size f (r # rs) =
     map (\<lambda>p. (p, length (filter (\<lambda>x. period_index f (diagnosis_date x) = p) (r # rs))))
       [period_index f (min_date (diagnosis_date r) (map diagnosis_date rs)) ..
        period_index f (max_date (diagnosis_date r) (map diagnosis_date rs))]"
  by (simp add: resample_size_def)

lemma resample_size_Nil: "resample_size f [] = []"
  by (simp add: resample_size_def)

lemma update_temporal_trends_series:
  "update_temporal_trends rv (Some start_date) (Some end_date) g hiv_data = Inr series \<Longrightarrow>
   series = resample_size (freq_of_granularity g)
     (filter (\<lambda>r. (rv = ''All'' \<or> region r = rv) \<and>
                   timestamp start_date \<le> timestamp (diagnosis_date r) \<and>
                   timestamp (diagnosis_date r) \<le> timestamp end_date) hiv_data)"
  unfolding update_temporal_trends_def Let_def
  by (auto split: if_splits intro!: arg_cong [where f = "resample_size (freq_of_granularity g)"]
        filter_cong)

lemma resample_size_range:
  assumes "data \<noteq> []" and "\<forall>r \<in> set data. valid_datetime (diagnosis_date r)"
  shows "\<exists>first last.
           first \<in> set (map diagnosis_date data) \<and> last \<in> set (map diagnosis_date data) \<and>
           (\<forall>d \<in> set (map diagnosis_date data).
               timestamp first \<le> timestamp d \<and> timestamp d \<le> timestamp last) \<and>
           period_index f first \<le> period_index f last \<and>
           map fst (resample_size f data) = [period_index f first .. period_index f last] \<and>
           length (resample_size f data) =
             nat (period_index f last - period_index f first + 1) \<and>
           (\<forall>pc \<in> set (resample_size f data).
               snd pc = length (filter (\<lambda>r. period_index f (diagnosis_date r) = fst pc) data)) \<and>
           sum_list (map snd (resample_size f data)) = length data"
proof -
  from assms(1) obtain r rs where data: "data = r # rs" by (cases data) auto
  let ?ds = "map diagnosis_date rs"
  let ?first = "min_date (diagnosis_date r) ?ds"
  let ?last = "max_date (diagnosis_date r) ?ds"
  have dates: "set (map diagnosis_date data) = set (diagnosis_date r # ?ds)" by (simp add: data)
  have fm: "?first \<in> set (map diagnosis_date data)" unfolding dates by (rule min_date_mem)
  have lm: "?last \<in> set (map diagnosis_date data)" unfolding dates by (rule max_date_mem)
  have bounds: "timestamp ?first \<le> timestamp d \<and> timestamp d \<le> timestamp ?last"
    if "d \<in> set (map diagnosis_date data)" for d
    using that min_date_le [of d "diagnosis_date r" ?ds] max_date_ge [of d "diagnosis_date r" ?ds]
    unfolding dates by simp
  have valid: "valid_datetime d" if "d \<in> set (map diagnosis_date data)" for d
    using that assms(2) by auto
  have pb: "period_index f ?first \<le> period_index f (diagnosis_date x) \<and>
            period_index f (diagnosis_date x) \<le> period_index f ?last" if "x \<in> set data" for x
  proof -
    have m: "diagnosis_date x \<in> set (map diagnosis_date data)" using that by simp
    show ?thesis
      using period_index_mono [OF valid [OF fm] valid [OF m]]
            period_index_mono [OF valid [OF m] valid [OF lm]] bounds [OF m] by simp
  qed
  have le: "period_index f ?first \<le> period_index f ?last"
    using pb [of r] by (simp add: data)
  have keys: "map fst (resample_size f data) = [period_index f ?first .. period_index f ?last]"
    unfolding data resample_size_Cons by (simp add: comp_def)
  have len: "length (resample_size f data) =
             nat (period_index f ?last - period_index f ?first + 1)"
    unfolding data resample_size_Cons by simp
  have cnt: "\<forall>pc \<in> set (resample_size f data).
               snd pc = length (filter (\<lambda>r. period_index f (diagnosis_date r) = fst pc) data)"
    unfolding data resample_size_Cons by auto
  have "sum_list (map snd (resample_size f data)) =
        (\<Sum>p\<leftarrow>[period_index f ?first .. period_index f ?last].
            length (filter (\<lambda>x. period_index f (diagnosis_date x) = p) data))"
    unfolding data resample_size_Cons by (simp add: comp_def)
  also have "\<dots> = length data"
    by (rule sum_bucket_counts) (use pb in blast)
  finally have total: "sum_list (map snd (resample_size f data)) = length data" .
  from fm lm bounds le keys len cnt total show ?thesis by blast
qed

text \<open>
  Claim C2. For a non-empty table of rows with proper dates, the resampled series runs over
  the calendar buckets from the one of the earliest date to the one of the latest, each
  bucket once and in ascending order; the value of a bucket is the number of rows that fall
  in it (so 0 where none does), and the values add up to the number of rows.
\<close>

theorem resample_size_buckets:
  assumes "data \<noteq> []" and "\<forall>r \<in> set data. valid_datetime (diagnosis_date r)"
  shows "\<exists>first last.
           first \<in> set (map diagnosis_date data) \<and> last \<in> set (map diagnosis_date data) \<and>
           (\<forall>d \<in> set (map diagnosis_date data).
               timestamp first \<le> timestamp d \<and> timestamp d \<le> timestamp last) \<and>
           period_index f first \<le> period_index f last \<and>
           map fst (resample_size f data) = [period_index f first .. period_index f last] \<and>
           length (resample_size f data) =
             nat (period_index f last - period_index f first + 1) \<and>
           (\<forall>pc \<in> set (resample_size f data).
               snd pc = length (filter (\<lambda>r. period_index f (diagnosis_date r) = fst pc) data)) \<and>
           sum_list (map snd (resample_size f data)) = length data"
  using assms by (rule resample_size_range)

lemmas eval_dates =
  datetime_ymd_def example_case_def timestamp_def toordinal_def days_before_year_def
  days_before_month_def days_in_month_def is_leap_def usec_per_day_def valid_datetime_def


theorem resample_size_buckets_witness:
  "[example_case ''Erongo'' (datetime_ymd 2020 1 15),
    example_case ''Hardap'' (datetime_ymd 2020 3 10)] \<noteq> [] \<and>
   list_all (\<lambda>r. valid_datetime (diagnosis_date r))
     [example_case ''Erongo'' (datetime_ymd 2020 1 15),
      example_case ''Hardap'' (datetime_ymd 2020 3 10)] \<and>
   resample_size Monthly [example_case ''Erongo'' (datetime_ymd 2020 1 15),
                          example_case ''Hardap'' (datetime_ymd 2020 3 10)] =
     [(2020 * 12 + 0, 1), (2020 * 12 + 1, 0), (2020 * 12 + 2, 1)]"
  using resample_size_buckets [of "[example_case ''Erongo'' (datetime_ymd 2020 1 15),
                          example_case ''Hardap'' (datetime_ymd 2020 3 10)]" Monthly]
  by (simp add: resample_size_def eval_dates upto_rec1)


section \<open>Properties of the facility filter\<close>

lemma str_contains_sublist: "str_contains s x = sublist s x"
  by (induction x) (auto simp: sublist_Cons_right)

lemma str_contains_iff: "str_contains s x \<longleftrightarrow> (\<exists>pre post. x = pre @ s @ post)"
  by (simp add: str_contains_sublist sublist_def)

text \<open>The test a facility has to pass under the selections of the facilities tab.\<close>

lemma update_facilities_filter_eq:
  "update_facilities_filter rv tv services_vars fs =
     filter (\<lambda>f. (rv = ''All'' \<or> f_region f = rv) \<and> (tv = ''All'' \<or> facility_type f = tv) \<and>
                  (map fst (filter snd services_vars) = [] \<or>
                   (\<exists>t \<in> set (map fst (filter snd services_vars)). str_contains t (services f))))
            fs"
  unfolding update_facilities_filter_def Let_def list_ex_iff
  by (auto intro: filter_cong)

text \<open>A tag without a comma that does not begin with a blank cannot straddle a separator.\<close>

lemma sublist_across_separator:
  assumes t: "CHR '','' \<notin> set t" "t \<noteq> []" "hd t \<noteq> CHR '' ''"
    and s: "sublist t (x @ '', '' @ rest)"
  shows "sublist t x \<or> sublist t rest"
proof -
  have no_prefix: "\<not> prefix u ('', '' @ rest)" if "u \<noteq> []" "CHR '','' \<notin> set u" for u
    using that by (cases u) (auto simp: prefix_Cons)
  from s consider "sublist t x" | "sublist t ('', '' @ rest)"
    | t1 t2 where "t = t1 @ t2" "suffix t1 x" "prefix t2 ('', '' @ rest)"
    unfolding sublist_append by blast
  then show ?thesis
  proof cases
    case 1
    then show ?thesis by simp
  next
    case 2
    then have "prefix t ('', '' @ rest) \<or> prefix t ('' '' @ rest) \<or> sublist t rest"
      by (auto simp: sublist_Cons_right)
    moreover have "\<not> prefix t ('', '' @ rest)" using no_prefix [of t] t by simp
    moreover have "\<not> prefix t ('' '' @ rest)" using t by (cases t) (auto simp: prefix_Cons)
    ultimately show ?thesis by simp
  next
    case 3
    show ?thesis
    proof (cases "t2 = []")
      case True
      with 3 have "suffix t x" by simp
      then show ?thesis by (simp add: suffix_imp_sublist)
    next
      case False
      moreover have "CHR '','' \<notin> set t2" using t(1) 3(1) by simp
      ultimately show ?thesis using no_prefix [of t2] 3(3) by simp
    qed
  qed
qed

lemma sublist_join:
  assumes "CHR '','' \<notin> set t" "t \<noteq> []" "hd t \<noteq> CHR '' ''"
  shows "sublist t (join '', '' tags) \<Longrightarrow> \<exists>x \<in> set tags. sublist t x"
proof (induction "'', ''" tags rule: join.induct)
  case 1
  then show ?case using assms by simp
next
  case (2 x)
  then show ?case by simp
next
  case (3 x y ys)
  from 3(2) have "sublist t (x @ '', '' @ join '', '' (y # ys))" by simp
  from sublist_across_separator [OF assms this] 3(1) show ?case by auto
qed

lemma join_sublist: "t \<in> set tags \<Longrightarrow> sublist t (join sep tags)"
proof (induction sep tags rule: join.induct)
  case (3 sep x y ys)
  show ?case
  proof (cases "t = x")
    case True
    then show ?thesis by simp
  next
    case False
    with 3 have "sublist t (join sep (y # ys))" by simp
    then obtain ps ss where "join sep (y # ys) = ps @ t @ ss" by (auto simp: sublist_def)
    then have "join sep (x # y # ys) = (x @ sep @ ps) @ t @ ss" by simp
    then show ?thesis unfolding sublist_def by blast
  qed
qed simp_all

lemma service_tags_plain:
  "t \<in> set service_tags \<Longrightarrow> CHR '','' \<notin> set t \<and> t \<noteq> [] \<and> hd t \<noteq> CHR '' ''"
  unfolding service_tags_def by auto

lemma mem_service_tags:
  "t \<in> set service_tags \<longleftrightarrow>
     t = ''HIV Testing'' \<or> t = ''HIV Treatment'' \<or> t = ''Counseling'' \<or> t = ''PrEP'' \<or>
     t = ''PMTCT'' \<or> t = ''Youth Services'' \<or> t = ''Support Groups''"
  unfolding service_tags_def by auto

lemma service_tags_no_overlap:
  "t \<in> set service_tags \<Longrightarrow> x \<in> set service_tags \<Longrightarrow> str_contains t x \<Longrightarrow> t = x"
  unfolding mem_service_tags by (elim disjE; simp)

lemma contains_joined_tag:
  assumes "set tags \<subseteq> set service_tags" "t \<in> set service_tags"
  shows "str_contains t (join '', '' tags) \<longleftrightarrow> t \<in> set tags"
proof
  assume "str_contains t (join '', '' tags)"
  then have sl: "sublist t (join '', '' tags)" by (simp add: str_contains_sublist)
  have p: "CHR '','' \<notin> set t" "t \<noteq> []" "hd t \<noteq> CHR '' ''"
    using service_tags_plain [OF assms(2)] by simp_all
  have "\<exists>x \<in> set tags. sublist t x" by (rule sublist_join [OF p sl])
  then obtain x where x: "x \<in> set tags" "sublist t x" by blast
  then have c: "str_contains t x" by (simp add: str_contains_sublist)
  have "x \<in> set service_tags" using x(1) assms(1) by (rule subsetD [rotated])
  from service_tags_no_overlap [OF assms(2) this c] have "t = x" .
  with x(1) show "t \<in> set tags" by simp
next
  assume "t \<in> set tags"
  then show "str_contains t (join '', '' tags)"
    by (simp add: str_contains_sublist join_sublist)
qed


text \<open>
  Claim C3. With at least one service box ticked, a facility whose services column lists the
  tags \<open>tags\<close> is kept exactly when it passes the region filter and the type filter (each
  of them off at \<^verbatim>\<open>"All"\<close>) and offers at least one of the ticked tags: the ticked tags are
  alternatives, the other filters are conjoined. The services column is the
  comma-separated list of the tags, as the data has it, and the tags are the seven known ones.
\<close>

theorem facility_filter_any_of:
  assumes "selected = map fst (filter snd services_vars)" "selected \<noteq> []"
    and "set selected \<subseteq> set service_tags"
    and "set tags \<subseteq> set service_tags" "services f = join '', '' tags"
  shows "f \<in> set (update_facilities_filter rv tv services_vars fs) \<longleftrightarrow>
           f \<in> set fs \<and> (rv = ''All'' \<or> f_region f = rv) \<and>
           (tv = ''All'' \<or> facility_type f = tv) \<and> (\<exists>t \<in> set selected. t \<in> set tags)"
proof -
  have "(\<exists>t \<in> set selected. str_contains t (services f)) \<longleftrightarrow> (\<exists>t \<in> set selected. t \<in> set tags)"
    using contains_joined_tag [OF assms(4)] assms(3,5) by auto
  then show ?thesis
    unfolding update_facilities_filter_eq using assms(1,2) by auto
qed

theorem facility_filter_any_of_witness:
  "example_facility ''Khomas'' ''Clinic'' (join '', '' [''HIV Testing'', ''Counseling''])
     \<in> set (update_facilities_filter ''Khomas'' ''All''
          [(''HIV Testing'', False), (''HIV Treatment'', True), (''Counseling'', True),
           (''PrEP'', False), (''PMTCT'', False), (''Youth Services'', False),
           (''Support Groups'', False)]
          [example_facility ''Erongo'' ''Clinic'' (join '', '' [''HIV Treatment'', ''Counseling'']),
           example_facility ''Khomas'' ''Clinic'' (join '', '' [''HIV Testing'', ''Counseling''])]) \<and>
   \<not> set [''HIV Treatment'', ''Counseling''] \<subseteq> set [''HIV Testing'', ''Counseling'']"
  using facility_filter_any_of [of "[''HIV Treatment'', ''Counseling'']"
          "[(''HIV Testing'', False), (''HIV Treatment'', True), (''Counseling'', True),
           (''PrEP'', False), (''PMTCT'', False), (''Youth Services'', False),
           (''Support Groups'', False)]"
          "[''HIV Testing'', ''Counseling'']"
          "example_facility ''Khomas'' ''Clinic'' (join '', '' [''HIV Testing'', ''Counseling''])"
          "''Khomas''" "''All''"
          "[example_facility ''Erongo'' ''Clinic'' (join '', '' [''HIV Treatment'', ''Counseling'']),
           example_facility ''Khomas'' ''Clinic'' (join '', '' [''HIV Testing'', ''Counseling''])]"]
  by (simp add: service_tags_def example_facility_def)

text \<open>
  Claim C10. The service test is a substring test on the services column: with at least one
  box ticked, a facility passes it exactly when some ticked tag occurs somewhere in the
  string. So a facility that lists \<^verbatim>\<open>PrEP Referral\<close> passes the filter for \<^verbatim>\<open>PrEP\<close>, which is
  not one of its entries.
\<close>

theorem facility_filter_substring:
  "(f \<in> set (update_facilities_filter rv tv services_vars fs) \<longleftrightarrow>
      f \<in> set fs \<and> (rv = ''All'' \<or> f_region f = rv) \<and> (tv = ''All'' \<or> facility_type f = tv) \<and>
      (map fst (filter snd services_vars) = [] \<or>
       (\<exists>t \<in> set (map fst (filter snd services_vars)).
          \<exists>pre post. services f = pre @ t @ post))) \<and>
   update_facilities_filter ''All'' ''All'' [(''PrEP'', True)]
      [example_facility ''Khomas'' ''Clinic'' (join '', '' [''PrEP Referral'', ''Counseling''])] =
      [example_facility ''Khomas'' ''Clinic'' (join '', '' [''PrEP Referral'', ''Counseling''])] \<and>
   ''PrEP'' \<notin> set [''PrEP Referral'', ''Counseling'']"
proof (intro conjI)
  show "f \<in> set (update_facilities_filter rv tv services_vars fs) \<longleftrightarrow>
      f \<in> set fs \<and> (rv = ''All'' \<or> f_region f = rv) \<and> (tv = ''All'' \<or> facility_type f = tv) \<and>
      (map fst (filter snd services_vars) = [] \<or>
       (\<exists>t \<in> set (map fst (filter snd services_vars)).
          \<exists>pre post. services f = pre @ t @ post))"
    unfolding update_facilities_filter_eq str_contains_iff by auto
  show "update_facilities_filter ''All'' ''All'' [(''PrEP'', True)]
      [example_facility ''Khomas'' ''Clinic'' (join '', '' [''PrEP Referral'', ''Counseling''])] =
      [example_facility ''Khomas'' ''Clinic'' (join '', '' [''PrEP Referral'', ''Counseling''])]"
    by (simp add: update_facilities_filter_def example_facility_def)
  show "''PrEP'' \<notin> set [''PrEP Referral'', ''Counseling'']" by simp
qed

theorem facility_filter_substring_witness:
  "example_facility ''Khomas'' ''Clinic'' ''HIV Testing, PMTCT''
     \<notin> set (update_facilities_filter ''All'' ''Clinic'' [(''PrEP'', True), (''PMTCT'', False)]
          [example_facility ''Khomas'' ''Clinic'' ''HIV Testing, PMTCT'']) \<and>
   (\<forall>pre post. ''HIV Testing, PMTCT'' \<noteq> pre @ ''PrEP'' @ post)"
  using facility_filter_substring [of
          "example_facility ''Khomas'' ''Clinic'' ''HIV Testing, PMTCT''" "''All''" "''Clinic''"
          "[(''PrEP'', True), (''PMTCT'', False)]"
          "[example_facility ''Khomas'' ''Clinic'' ''HIV Testing, PMTCT'']"]
        str_contains_iff [of "''PrEP''" "''HIV Testing, PMTCT''"]
  by (simp add: update_facilities_filter_def example_facility_def)

end
